theory Spec2Isabelle
  imports Main
begin

section \<open>Tokens and statements\<close>

text \<open>
  The block lexers of \<^verbatim>\<open>robot/parsing/lexer/blocklexers.py\<close> route statements (lists of
  tokens) through a tree of lexer objects. A token carries its text, a type that is
  \<^verbatim>\<open>None\<close> until some lexer assigns it, and the two flags \<^verbatim>\<open>_add_eos_before\<close> and
  \<^verbatim>\<open>_add_eos_after\<close>. Only the two name types are assigned by the code of this module.
\<close>

datatype token_type = TESTCASE_NAME | KEYWORD_NAME

record token =
  tvalue :: string
  ttype :: "token_type option"
  add_eos_before :: bool
  add_eos_after :: bool

type_synonym statement = "token list"

text \<open>
  The two exceptions the module can raise: the \<^verbatim>\<open>TypeError\<close> of \<^verbatim>\<open>lexer_for\<close>, whose message
  interpolates the name of the composite's class and the statement, and the
  \<^verbatim>\<open>IndexError\<close> of \<^verbatim>\<open>statement[0]\<close> and \<^verbatim>\<open>statement.pop(0)\<close> on an empty list.
\<close>

datatype error = TypeError string statement | IndexError

definition startswith :: "string \<Rightarrow> string \<Rightarrow> bool" where
  "startswith s p = (take (length p) s = p)"

section \<open>Lexer classes\<close>

text \<open>
  Modelled from the spec: the statement lexer classes are declared in
  \<^verbatim>\<open>statementlexers.py\<close>, which this module only imports. They are the leaf kinds of the
  spec, taken as classes that do not derive from one another, so that \<^verbatim>\<open>isinstance\<close> on
  them is equality of the class.
\<close>

datatype stmt_cls =
    SettingSectionHeaderLexer | SettingLexer
  | VariableSectionHeaderLexer | VariableLexer
  | TestCaseSectionHeaderLexer
  | TaskSectionHeaderLexer
  | KeywordSectionHeaderLexer
  | CommentSectionHeaderLexer | CommentLexer | ImplicitCommentLexer
  | ErrorSectionHeaderLexer
  | TestOrKeywordSettingLexer
  | KeywordCallLexer
  | IfHeaderLexer | ElseIfHeaderLexer | ElseHeaderLexer
  | InlineIfHeaderLexer | EndLexer
  | TryHeaderLexer | ExceptHeaderLexer | FinallyHeaderLexer
  | ForHeaderLexer | WhileHeaderLexer
  | ContinueLexer | BreakLexer | ReturnLexer

datatype nested_cls = ForLexer | WhileLexer | TryLexer | IfLexer

datatype named_cls = TestCaseLexer | KeywordLexer

datatype section_cls =
    SettingSectionLexer | VariableSectionLexer
  | TestCaseSectionLexer | TaskSectionLexer
  | KeywordSectionLexer | CommentSectionLexer
  | ErrorSectionLexer | ImplicitCommentSectionLexer

text \<open>The classes that occur in the candidate lists of the body-level composites.\<close>

datatype body_cls = Stmt stmt_cls | InlineIfLexer | Nested nested_cls


datatype ctx = FileContext | TestCaseContext | KeywordContext

text \<open>
  The collaborators that are not part of this module: the \<^verbatim>\<open>handles\<close> and
  \<^verbatim>\<open>accepts_more\<close> of the statement lexers, the \<^verbatim>\<open>handles\<close> the named-block lexers inherit
  from the base class \<^verbatim>\<open>Lexer\<close>, and the section predicates of the file context. The
  section predicates are given the statements of the file as they come, the empty one
  included, and may raise instead of answering.
\<close>

record env =
  stmt_handles :: "stmt_cls \<Rightarrow> statement \<Rightarrow> ctx \<Rightarrow> bool"
  stmt_accepts_more :: "stmt_cls \<Rightarrow> statement \<Rightarrow> bool"
  Lexer_handles :: "statement \<Rightarrow> ctx \<Rightarrow> bool"
  setting_section :: "statement \<Rightarrow> error + bool"
  variable_section :: "statement \<Rightarrow> error + bool"
  test_case_section :: "statement \<Rightarrow> error + bool"
  task_section :: "statement \<Rightarrow> error + bool"
  keyword_section :: "statement \<Rightarrow> error + bool"
  comment_section :: "statement \<Rightarrow> error + bool"

section \<open>The composite dispatcher \<^verbatim>\<open>BlockLexer\<close>\<close>

text \<open>
  \<^verbatim>\<open>lexer_for\<close>: the first class of the candidate list whose \<^verbatim>\<open>handles\<close> is true is
  instantiated; with none, the \<^verbatim>\<open>TypeError\<close> names the composite and the statement.
\<close>

fun lexer_for ::
  "string \<Rightarrow> ('c \<Rightarrow> statement \<Rightarrow> bool) \<Rightarrow> ('c \<Rightarrow> 'k) \<Rightarrow> 'c list \<Rightarrow> statement \<Rightarrow> error + 'k" where
  "lexer_for name handles new [] statement = Inl (TypeError name statement)"
| "lexer_for name handles new (c # cs) statement =
     (if handles c statement then Inr (new c) else lexer_for name handles new cs statement)"

text \<open>
  \<^verbatim>\<open>lexer_for\<close> over candidates whose \<^verbatim>\<open>handles\<close> can raise: the exception of the first
  \<^verbatim>\<open>handles\<close> call that raises leaves the loop.
\<close>

fun lexer_for_raising ::
  "string \<Rightarrow> ('c \<Rightarrow> statement \<Rightarrow> error + bool) \<Rightarrow> ('c \<Rightarrow> 'k) \<Rightarrow> 'c list \<Rightarrow> statement \<Rightarrow> error + 'k" where
  "lexer_for_raising name handles new [] statement = Inl (TypeError name statement)"
| "lexer_for_raising name handles new (c # cs) statement =
     (case handles c statement of
        Inl e \<Rightarrow> Inl e
      | Inr True \<Rightarrow> Inr (new c)
      | Inr False \<Rightarrow> lexer_for_raising name handles new cs statement)"

text \<open>
  \<^verbatim>\<open>BlockLexer.input\<close>, over the children \<^verbatim>\<open>self.lexers\<close>: \<open>acc\<close> is the child's
  \<^verbatim>\<open>accepts_more\<close>, \<open>lf\<close> the composite's \<^verbatim>\<open>lexer_for\<close>, \<open>inp\<close> the child's \<^verbatim>\<open>input\<close>.
  The result is the new list of children and the lexer that is returned.
\<close>

definition BlockLexer_input ::
  "('k \<Rightarrow> statement \<Rightarrow> error + bool) \<Rightarrow> (statement \<Rightarrow> error + 'k) \<Rightarrow>
   ('k \<Rightarrow> statement \<Rightarrow> error + 'k) \<Rightarrow> 'k list \<Rightarrow> statement \<Rightarrow> error + ('k list \<times> 'k)" where
  "BlockLexer_input acc lf inp lexers statement =
     (case (if lexers = [] then Inr False else acc (last lexers) statement) of
        Inl e \<Rightarrow> Inl e
      | Inr True \<Rightarrow>
          (case inp (last lexers) statement of
             Inl e \<Rightarrow> Inl e
           | Inr lexer \<Rightarrow> Inr (butlast lexers @ [lexer], lexer))
      | Inr False \<Rightarrow>
          (case lf statement of
             Inl e \<Rightarrow> Inl e
           | Inr new_lexer \<Rightarrow>
               (case inp new_lexer statement of
                  Inl e \<Rightarrow> Inl e
                | Inr lexer \<Rightarrow> Inr (lexers @ [lexer], lexer))))"

text \<open>
  \<^verbatim>\<open>BlockLexer.lex\<close> and \<^verbatim>\<open>_lex_with_priority\<close>. A \<^verbatim>\<open>lex()\<close> call is modelled by the
  sequence of statement lexers whose \<^verbatim>\<open>lex()\<close> it runs, in the order it runs them.
\<close>

definition BlockLexer_lex :: "('k \<Rightarrow> 'e list) \<Rightarrow> 'k list \<Rightarrow> 'e list" where
  "BlockLexer_lex lex_child lexers = concat (map lex_child lexers)"

definition lex_with_priority :: "('k \<Rightarrow> bool) \<Rightarrow> ('k \<Rightarrow> 'e list) \<Rightarrow> 'k list \<Rightarrow> 'e list" where
  "lex_with_priority priority lex_child lexers =
     concat (map lex_child (filter priority lexers)) @
     concat (map lex_child (filter (\<lambda>lexer. \<not> priority lexer) lexers))"

section \<open>Statement lexers\<close>

text \<open>
  Modelled from the spec: the statement lexers (\<^verbatim>\<open>statementlexers.py\<close>) are leaf units
  whose \<^verbatim>\<open>input\<close> records the statement as owned by the unit. The object keeps its class
  and the statements it was given, in order.
\<close>

datatype stmt_lexer = StatementLexer (stmt_class: stmt_cls) (statements: "statement list")

definition StatementLexer_input :: "stmt_lexer \<Rightarrow> statement \<Rightarrow> stmt_lexer" where
  "StatementLexer_input lexer statement =
     StatementLexer (stmt_class lexer) (statements lexer @ [statement])"

definition stmt_new :: "stmt_cls \<Rightarrow> stmt_lexer" where
  "stmt_new c = StatementLexer c []"

section \<open>The inline-conditional lexer\<close>

text \<open>
  Modelled from the spec: \<^verbatim>\<open>normalize_whitespace\<close> (\<^verbatim>\<open>robot.utils\<close>) collapses
  every run of whitespace into one space. Whitespace is taken to be the ASCII
  characters Python's \<^verbatim>\<open>\s\<close> matches.
\<close>

definition is_whitespace :: "char \<Rightarrow> bool" where
  "is_whitespace c = (of_char c \<in> {9, 10, 11, 12, 13, 28, 29, 30, 31, 32 :: nat})"

fun collapse_whitespace :: "bool \<Rightarrow> string \<Rightarrow> string" where
  "collapse_whitespace in_run [] = []"
| "collapse_whitespace in_run (c # cs) =
     (if is_whitespace c
      then (if in_run then collapse_whitespace True cs
            else CHR '' '' # collapse_whitespace True cs)
      else c # collapse_whitespace False cs)"

definition normalize_whitespace :: "string \<Rightarrow> string" where
  "normalize_whitespace s = collapse_whitespace False s"

definition InlineIfLexer_handles :: "env \<Rightarrow> statement \<Rightarrow> ctx \<Rightarrow> bool" where
  "InlineIfLexer_handles E statement c =
     (if length statement \<le> 2 then False
      else stmt_handles E InlineIfHeaderLexer statement c)"

definition InlineIfLexer_accepts_more :: "statement \<Rightarrow> bool" where
  "InlineIfLexer_accepts_more statement = False"

definition InlineIfLexer_lexer_classes :: "stmt_cls list" where
  "InlineIfLexer_lexer_classes =
     [InlineIfHeaderLexer, ElseIfHeaderLexer, ElseHeaderLexer,
      ReturnLexer, ContinueLexer, BreakLexer, KeywordCallLexer]"

text \<open>
  \<^verbatim>\<open>_split\<close>, a generator: the loop over the tokens with its two variables \<^verbatim>\<open>current\<close>
  and \<^verbatim>\<open>expect_condition\<close>; the result is the sequence of the lists it yields. The
  tokens of a statement are distinct objects, so \<^verbatim>\<open>token is not statement[-1]\<close> holds
  exactly when tokens remain after this one.
\<close>

fun split_loop :: "statement \<Rightarrow> bool \<Rightarrow> statement \<Rightarrow> statement list" where
  "split_loop current expect_condition [] = [current]"
| "split_loop current expect_condition (t # rest) =
     (if expect_condition then
        (current @ [if rest \<noteq> [] then t\<lparr>add_eos_after := True\<rparr> else t])
          # split_loop [] False rest
      else if tvalue t = ''IF'' then
        split_loop (current @ [t]) True rest
      else if normalize_whitespace (tvalue t) = ''ELSE IF'' then
        current # split_loop [t\<lparr>add_eos_before := True\<rparr>] True rest
      else if tvalue t = ''ELSE'' then
        current
          # [if rest \<noteq> [] then t\<lparr>add_eos_before := True, add_eos_after := True\<rparr>
             else t\<lparr>add_eos_before := True\<rparr>]
          # split_loop [] False rest
      else split_loop (current @ [t]) False rest)"

definition InlineIfLexer_split :: "statement \<Rightarrow> statement list" where
  "InlineIfLexer_split statement = split_loop [] False statement"

definition inline_child_input ::
  "env \<Rightarrow> ctx \<Rightarrow> stmt_lexer list \<Rightarrow> statement \<Rightarrow> error + (stmt_lexer list \<times> stmt_lexer)" where
  "inline_child_input E c lexers statement =
     BlockLexer_input
       (\<lambda>lexer s. Inr (stmt_accepts_more E (stmt_class lexer) s))
       (lexer_for ''InlineIfLexer'' (\<lambda>k s. stmt_handles E k s c) stmt_new
          InlineIfLexer_lexer_classes)
       (\<lambda>lexer s. Inr (StatementLexer_input lexer s))
       lexers statement"

fun inline_parts :: "env \<Rightarrow> ctx \<Rightarrow> stmt_lexer list \<Rightarrow> statement list \<Rightarrow> error + stmt_lexer list" where
  "inline_parts E c lexers [] = Inr lexers"
| "inline_parts E c lexers (part # parts) =
     (if part \<noteq> [] then
        (case inline_child_input E c lexers part of
           Inl e \<Rightarrow> Inl e
         | Inr (lexers', lexer) \<Rightarrow> inline_parts E c lexers' parts)
      else inline_parts E c lexers parts)"

section \<open>Nested block lexers\<close>

text \<open>
  The lexers a test or keyword body holds: statement lexers, inline-conditional lexers
  (whose children are statement lexers, by their candidate list) and the nested block
  lexers \<^verbatim>\<open>ForLexer\<close>, \<^verbatim>\<open>WhileLexer\<close>, \<^verbatim>\<open>TryLexer\<close>, \<^verbatim>\<open>IfLexer\<close> with their children and
  \<^verbatim>\<open>_block_level\<close>.
\<close>

datatype body_lexer =
    BStmt stmt_lexer
  | BInlineIf "stmt_lexer list"
  | BNested nested_cls "body_lexer list" int

text \<open>\<^verbatim>\<open>InlineIfLexer.input\<close> feeds every non-empty part and returns \<^verbatim>\<open>self\<close>.\<close>

definition InlineIfLexer_input ::
  "env \<Rightarrow> ctx \<Rightarrow> stmt_lexer list \<Rightarrow> statement \<Rightarrow> error + (stmt_lexer list \<times> body_lexer)" where
  "InlineIfLexer_input E c lexers statement =
     (case inline_parts E c lexers (InlineIfLexer_split statement) of
        Inl e \<Rightarrow> Inl e
      | Inr lexers' \<Rightarrow> Inr (lexers', BInlineIf lexers'))"

fun nested_name :: "nested_cls \<Rightarrow> string" where
  "nested_name ForLexer = ''ForLexer''"
| "nested_name WhileLexer = ''WhileLexer''"
| "nested_name TryLexer = ''TryLexer''"
| "nested_name IfLexer = ''IfLexer''"

fun nested_handles :: "env \<Rightarrow> nested_cls \<Rightarrow> statement \<Rightarrow> ctx \<Rightarrow> bool" where
  "nested_handles E ForLexer statement c = stmt_handles E ForHeaderLexer statement c"
| "nested_handles E WhileLexer statement c = stmt_handles E WhileHeaderLexer statement c"
| "nested_handles E TryLexer statement c = stmt_handles E TryHeaderLexer statement c"
| "nested_handles E IfLexer statement c = stmt_handles E IfHeaderLexer statement c"

fun nested_lexer_classes :: "nested_cls \<Rightarrow> body_cls list" where
  "nested_lexer_classes ForLexer =
     [Stmt ForHeaderLexer, InlineIfLexer, Nested IfLexer, Nested TryLexer, Nested WhileLexer,
      Stmt EndLexer, Stmt ReturnLexer, Stmt ContinueLexer, Stmt BreakLexer,
      Stmt KeywordCallLexer]"
| "nested_lexer_classes WhileLexer =
     [Stmt WhileHeaderLexer, Nested ForLexer, InlineIfLexer, Nested IfLexer, Nested TryLexer,
      Stmt EndLexer, Stmt ReturnLexer, Stmt ContinueLexer, Stmt BreakLexer,
      Stmt KeywordCallLexer]"
| "nested_lexer_classes TryLexer =
     [Stmt TryHeaderLexer, Stmt ExceptHeaderLexer, Stmt ElseHeaderLexer,
      Stmt FinallyHeaderLexer, Nested ForLexer, InlineIfLexer, Nested IfLexer,
      Nested WhileLexer, Stmt EndLexer, Stmt ReturnLexer, Stmt BreakLexer,
      Stmt ContinueLexer, Stmt KeywordCallLexer]"
| "nested_lexer_classes IfLexer =
     [InlineIfLexer, Stmt IfHeaderLexer, Stmt ElseIfHeaderLexer, Stmt ElseHeaderLexer,
      Nested ForLexer, Nested TryLexer, Nested WhileLexer, Stmt EndLexer, Stmt ReturnLexer,
      Stmt ContinueLexer, Stmt BreakLexer, Stmt KeywordCallLexer]"

fun body_handles :: "env \<Rightarrow> ctx \<Rightarrow> body_cls \<Rightarrow> statement \<Rightarrow> bool" where
  "body_handles E c (Stmt k) statement = stmt_handles E k statement c"
| "body_handles E c InlineIfLexer statement = InlineIfLexer_handles E statement c"
| "body_handles E c (Nested k) statement = nested_handles E k statement c"

text \<open>Instantiation \<^verbatim>\<open>cls(self.ctx)\<close>: no children, \<^verbatim>\<open>_block_level = 0\<close>.\<close>

fun body_new :: "body_cls \<Rightarrow> body_lexer" where
  "body_new (Stmt k) = BStmt (stmt_new k)"
| "body_new InlineIfLexer = BInlineIf []"
| "body_new (Nested k) = BNested k [] 0"

fun body_accepts_more :: "env \<Rightarrow> body_lexer \<Rightarrow> statement \<Rightarrow> bool" where
  "body_accepts_more E (BStmt lexer) statement = stmt_accepts_more E (stmt_class lexer) statement"
| "body_accepts_more E (BInlineIf lexers) statement = InlineIfLexer_accepts_more statement"
| "body_accepts_more E (BNested k lexers block_level) statement = (block_level > 0)"

text \<open>
  \<^verbatim>\<open>isinstance(lexer, (ForHeaderLexer, IfHeaderLexer, TryHeaderLexer, WhileHeaderLexer))\<close>
  and \<^verbatim>\<open>isinstance(lexer, EndLexer)\<close>.
\<close>

fun is_block_header :: "body_lexer \<Rightarrow> bool" where
  "is_block_header (BStmt lexer) =
     (stmt_class lexer \<in> {ForHeaderLexer, IfHeaderLexer, TryHeaderLexer, WhileHeaderLexer})"
| "is_block_header (BInlineIf lexers) = False"
| "is_block_header (BNested k lexers block_level) = False"

fun is_end :: "body_lexer \<Rightarrow> bool" where
  "is_end (BStmt lexer) = (stmt_class lexer = EndLexer)"
| "is_end (BInlineIf lexers) = False"
| "is_end (BNested k lexers block_level) = False"

definition body_lexer_for :: "env \<Rightarrow> ctx \<Rightarrow> string \<Rightarrow> body_cls list \<Rightarrow> statement \<Rightarrow> error + body_lexer" where
  "body_lexer_for E c name classes statement =
     lexer_for name (body_handles E c) body_new classes statement"

text \<open>\<^verbatim>\<open>NestedBlockLexer.input\<close>: the two \<^verbatim>\<open>if\<close>s on the lexer \<^verbatim>\<open>super().input\<close> returned.\<close>

definition update_block_level :: "body_lexer \<Rightarrow> int \<Rightarrow> int" where
  "update_block_level lexer block_level =
     (let l1 = (if is_block_header lexer then block_level + 1 else block_level)
      in if is_end lexer then l1 - 1 else l1)"

lemma BlockLexer_input_cong [fundef_cong]:
  assumes "acc = acc'" and "lf = lf'" and "lexers = lexers'" and "statement = statement'"
    and "lexers' \<noteq> [] \<Longrightarrow> inp (last lexers') statement' = inp' (last lexers') statement'"
    and "\<And>k. lf' statement' = Inr k \<Longrightarrow> inp k statement' = inp' k statement'"
  shows "BlockLexer_input acc lf inp lexers statement =
         BlockLexer_input acc' lf' inp' lexers' statement'"
proof (cases "lexers' = []")
  case True
  then show ?thesis
    using assms(1-4,6) by (simp add: BlockLexer_input_def split: sum.splits)
next
  case False
  show ?thesis
  proof (cases "acc' (last lexers') statement'")
    case (Inl e)
    then show ?thesis
      using assms(1-4) False by (simp add: BlockLexer_input_def)
  next
    case (Inr b)
    then show ?thesis
      using assms False by (cases b) (simp_all add: BlockLexer_input_def split: sum.splits)
  qed
qed

function body_input :: "env \<Rightarrow> ctx \<Rightarrow> body_lexer \<Rightarrow> statement \<Rightarrow> error + body_lexer" where
  "body_input E c (BStmt lexer) statement = Inr (BStmt (StatementLexer_input lexer statement))"
| "body_input E c (BInlineIf lexers) statement =
     (case InlineIfLexer_input E c lexers statement of
        Inl e \<Rightarrow> Inl e
      | Inr (lexers', self) \<Rightarrow> Inr self)"
| "body_input E c (BNested k lexers block_level) statement =
     (case BlockLexer_input
             (\<lambda>lexer s. Inr (body_accepts_more E lexer s))
             (body_lexer_for E c (nested_name k) (nested_lexer_classes k))
             (body_input E c)
             lexers statement of
        Inl e \<Rightarrow> Inl e
      | Inr (lexers', lexer) \<Rightarrow>
          Inr (BNested k lexers' (update_block_level lexer block_level)))"
  by pat_completeness auto

text \<open>
  The recursion of \<^verbatim>\<open>input\<close> ends: a call on an existing child is a call on a smaller
  tree, and a lexer that \<^verbatim>\<open>lexer_for\<close> has just created for a statement finds a statement
  lexer or an inline-conditional lexer for it, at once or after one more nested lexer.
\<close>

fun lexer_weight :: "body_lexer \<Rightarrow> nat" where
  "lexer_weight (BStmt lexer) = 0"
| "lexer_weight (BInlineIf lexers) = 0"
| "lexer_weight (BNested k lexers block_level) = 3 + sum_list (map lexer_weight lexers)"

fun dispatch_rank :: "env \<Rightarrow> ctx \<Rightarrow> body_lexer \<Rightarrow> statement \<Rightarrow> nat" where
  "dispatch_rank E c (BNested k [] block_level) statement = (if nested_handles E k statement c then 1 else 2)"
| "dispatch_rank E c lexer statement = lexer_weight lexer"

lemma dispatch_rank_le_weight: "dispatch_rank E c lexer statement \<le> lexer_weight lexer"
  by (cases "(E, c, lexer, statement)" rule: dispatch_rank.cases) auto

lemma lexer_weight_last_le: "lexers \<noteq> [] \<Longrightarrow> lexer_weight (last lexers) \<le> sum_list (map lexer_weight lexers)"
  by (induction lexers) auto

lemma dispatch_rank_fresh_le:
  "lexer_for name (body_handles E c) body_new classes statement = Inr lexer \<Longrightarrow>
   dispatch_rank E c lexer statement \<le> 1"
proof (induction classes)
  case Nil
  then show ?case by simp
next
  case (Cons k ks)
  show ?case
  proof (cases "body_handles E c k statement")
    case True
    with Cons.prems have "lexer = body_new k" by simp
    with True show ?thesis by (cases k) (simp_all add: stmt_new_def)
  next
    case False
    with Cons show ?thesis by simp
  qed
qed

lemma dispatch_rank_fresh_header:
  assumes "nested_handles E k statement c"
    and "body_lexer_for E c name (nested_lexer_classes k) statement = Inr lexer"
  shows "dispatch_rank E c lexer statement = 0"
  using assms
  by (cases k) (auto simp: body_lexer_for_def stmt_new_def split: if_splits)

termination body_input
proof (relation "measure (\<lambda>(E, c, lexer, statement). dispatch_rank E c lexer statement)", goal_cases)
  case 1
  show ?case by simp
next
  case (2 E c k lexers block_level statement)
  have "dispatch_rank E c (last lexers) statement \<le> lexer_weight (last lexers)"
    by (rule dispatch_rank_le_weight)
  also have "\<dots> \<le> sum_list (map lexer_weight lexers)"
    using 2 by (rule lexer_weight_last_le)
  also have "\<dots> < dispatch_rank E c (BNested k lexers block_level) statement"
    using 2 by (cases lexers) simp_all
  finally show ?case by simp
next
  case (3 E c k lexers block_level statement lexer)
  show ?case
  proof (cases "lexers = []")
    case True
    show ?thesis
    proof (cases "nested_handles E k statement c")
      case h: True
      with 3(1) True show ?thesis by (simp add: dispatch_rank_fresh_header)
    next
      case h: False
      have "dispatch_rank E c lexer statement \<le> 1"
        using 3(1) unfolding body_lexer_for_def by (rule dispatch_rank_fresh_le)
      with h True show ?thesis by simp
    qed
  next
    case False
    have "dispatch_rank E c lexer statement \<le> 1"
      using 3(1) unfolding body_lexer_for_def by (rule dispatch_rank_fresh_le)
    moreover have "3 \<le> dispatch_rank E c (BNested k lexers block_level) statement"
      using False by (cases lexers) simp_all
    ultimately show ?thesis by simp
  qed
qed

section \<open>Test case and keyword lexers\<close>

datatype named_lexer =
  TestOrKeywordLexer (named_class: named_cls) (name_seen: bool) (named_lexers: "body_lexer list")

fun name_type :: "named_cls \<Rightarrow> token_type" where
  "name_type TestCaseLexer = TESTCASE_NAME"
| "name_type KeywordLexer = KEYWORD_NAME"

text \<open>\<^verbatim>\<open>ctx.test_case_context()\<close> and \<^verbatim>\<open>ctx.keyword_context()\<close> of the constructors.\<close>

fun named_ctx :: "named_cls \<Rightarrow> ctx" where
  "named_ctx TestCaseLexer = TestCaseContext"
| "named_ctx KeywordLexer = KeywordContext"

fun named_name :: "named_cls \<Rightarrow> string" where
  "named_name TestCaseLexer = ''TestCaseLexer''"
| "named_name KeywordLexer = ''KeywordLexer''"


definition TestOrKeywordLexer_lexer_classes :: "body_cls list" where
  "TestOrKeywordLexer_lexer_classes =
     [Stmt TestOrKeywordSettingLexer, Stmt BreakLexer, Stmt ContinueLexer,
      Nested ForLexer, InlineIfLexer, Nested IfLexer, Stmt ReturnLexer, Nested TryLexer,
      Nested WhileLexer, Stmt KeywordCallLexer]"

text \<open>
  The \<^verbatim>\<open>while\<close> loop of \<^verbatim>\<open>_handle_name_or_indentation\<close>: the leading tokens with an empty
  value are popped and their type set to \<^verbatim>\<open>None\<close>. The result is the popped tokens and
  what is left of the statement.
\<close>

fun pop_indentation :: "statement \<Rightarrow> token list \<times> statement" where
  "pop_indentation [] = ([], [])"
| "pop_indentation (t # rest) =
     (if tvalue t = [] then
        (case pop_indentation rest of
           (ignored, statement') \<Rightarrow> (t\<lparr>ttype := None\<rparr> # ignored, statement'))
      else ([], t # rest))"

text \<open>
  \<^verbatim>\<open>_handle_name_or_indentation\<close>: the tokens it pops (as it leaves them), the statement
  after the pops and the new \<^verbatim>\<open>_name_seen\<close>.
\<close>

definition handle_name_or_indentation ::
  "token_type \<Rightarrow> bool \<Rightarrow> statement \<Rightarrow> error + (token list \<times> statement \<times> bool)" where
  "handle_name_or_indentation nt seen statement =
     (if \<not> seen then
        (case statement of
           [] \<Rightarrow> Inl IndexError
         | t # rest \<Rightarrow>
             Inr ([if rest \<noteq> [] then t\<lparr>ttype := Some nt, add_eos_after := True\<rparr>
                   else t\<lparr>ttype := Some nt\<rparr>], rest, True))
      else
        (case pop_indentation statement of
           (ignored, statement') \<Rightarrow> Inr (ignored, statement', seen)))"

text \<open>
  \<^verbatim>\<open>TestOrKeywordLexer.input\<close>. The result is the lexer after the call and the tokens
  that were popped from the statement.
\<close>

definition TestOrKeywordLexer_input ::
  "env \<Rightarrow> named_lexer \<Rightarrow> statement \<Rightarrow> error + (named_lexer \<times> token list)" where
  "TestOrKeywordLexer_input E self statement =
     (case handle_name_or_indentation (name_type (named_class self)) (name_seen self) statement of
        Inl e \<Rightarrow> Inl e
      | Inr (popped, statement', seen') \<Rightarrow>
          (if statement' \<noteq> [] then
             (case BlockLexer_input
                     (\<lambda>lexer s. Inr (body_accepts_more E lexer s))
                     (body_lexer_for E (named_ctx (named_class self))
                        (named_name (named_class self)) TestOrKeywordLexer_lexer_classes)
                     (body_input E (named_ctx (named_class self)))
                     (named_lexers self) statement' of
                Inl e \<Rightarrow> Inl e
              | Inr (lexers', lexer) \<Rightarrow>
                  Inr (TestOrKeywordLexer (named_class self) seen' lexers', popped))
           else Inr (TestOrKeywordLexer (named_class self) seen' (named_lexers self), popped)))"

section \<open>Section lexers and the file lexer\<close>

datatype section_child = SCStmt stmt_lexer | SCNamed named_lexer

datatype section_lexer =
  SectionLexer (section_class: section_cls) (section_lexers: "section_child list")

datatype file_lexer = FileLexer (file_lexers: "section_lexer list")














section \<open>The order of \<^verbatim>\<open>lex()\<close>\<close>

lemma BlockLexer_lex_cong [fundef_cong]:
  assumes "lexers = lexers'" and "\<And>k. k \<in> set lexers' \<Longrightarrow> f k = g k"
  shows "BlockLexer_lex f lexers = BlockLexer_lex g lexers'"
  using assms by (simp add: BlockLexer_lex_def cong: map_cong)

fun body_lex :: "body_lexer \<Rightarrow> stmt_lexer list" where
  "body_lex (BStmt lexer) = [lexer]"
| "body_lex (BInlineIf lexers) = BlockLexer_lex (\<lambda>lexer. [lexer]) lexers"
| "body_lex (BNested k lexers block_level) = BlockLexer_lex body_lex lexers"

text \<open>\<^verbatim>\<open>isinstance(lexer, TestOrKeywordSettingLexer)\<close> on a child of a named block.\<close>

fun is_TestOrKeywordSettingLexer :: "body_lexer \<Rightarrow> bool" where
  "is_TestOrKeywordSettingLexer (BStmt lexer) = (stmt_class lexer = TestOrKeywordSettingLexer)"
| "is_TestOrKeywordSettingLexer (BInlineIf lexers) = False"
| "is_TestOrKeywordSettingLexer (BNested k lexers block_level) = False"

text \<open>
  \<^verbatim>\<open>TestCaseLexer\<close> overrides \<^verbatim>\<open>lex\<close>; \<^verbatim>\<open>KeywordLexer\<close> does not and runs
  \<^verbatim>\<open>BlockLexer.lex\<close>.
\<close>

fun named_lex :: "named_lexer \<Rightarrow> stmt_lexer list" where
  "named_lex (TestOrKeywordLexer TestCaseLexer seen lexers) =
     lex_with_priority is_TestOrKeywordSettingLexer body_lex lexers"
| "named_lex (TestOrKeywordLexer KeywordLexer seen lexers) = BlockLexer_lex body_lex lexers"

fun section_child_lex :: "section_child \<Rightarrow> stmt_lexer list" where
  "section_child_lex (SCStmt lexer) = [lexer]"
| "section_child_lex (SCNamed lexer) = named_lex lexer"

definition section_lex :: "section_lexer \<Rightarrow> stmt_lexer list" where
  "section_lex self = BlockLexer_lex section_child_lex (section_lexers self)"

text \<open>
  \<^verbatim>\<open>isinstance(lexer, SettingSectionLexer)\<close>: \<^verbatim>\<open>KeywordSectionLexer\<close> is declared as a
  subclass of \<^verbatim>\<open>SettingSectionLexer\<close>, the other section lexers derive from
  \<^verbatim>\<open>SectionLexer\<close>.
\<close>

fun is_SettingSectionLexer :: "section_lexer \<Rightarrow> bool" where
  "is_SettingSectionLexer (SectionLexer k lexers) =
     (k = SettingSectionLexer \<or> k = KeywordSectionLexer)"

definition FileLexer_lex :: "file_lexer \<Rightarrow> stmt_lexer list" where
  "FileLexer_lex self = lex_with_priority is_SettingSectionLexer section_lex (file_lexers self)"

section \<open>A sample instance of the collaborators\<close>

text \<open>
  The theorems below hold for every instance of the collaborators. To run the lexers on
  concrete statements, this instance recognises the statement kinds by the text of the
  first token, lets the catch-all statement lexers handle everything and lets no statement
  lexer accept a second statement.
\<close>

text \<open>
  Modelled from the spec: a token as the upstream splitter delivers it has its text, no
  type and no boundary requested.
\<close>

definition tok :: "string \<Rightarrow> token" where
  "tok s = \<lparr>tvalue = s, ttype = None, add_eos_before = False, add_eos_after = False\<rparr>"

definition first_value :: "statement \<Rightarrow> string" where
  "first_value statement = (case statement of [] \<Rightarrow> [] | t # rest \<Rightarrow> tvalue t)"

fun sample_stmt_handles :: "stmt_cls \<Rightarrow> statement \<Rightarrow> ctx \<Rightarrow> bool" where
  "sample_stmt_handles ForHeaderLexer statement c = (first_value statement = ''FOR'')"
| "sample_stmt_handles WhileHeaderLexer statement c = (first_value statement = ''WHILE'')"
| "sample_stmt_handles TryHeaderLexer statement c = (first_value statement = ''TRY'')"
| "sample_stmt_handles IfHeaderLexer statement c =
     (first_value statement = ''IF'' \<and> length statement \<le> 2)"
| "sample_stmt_handles InlineIfHeaderLexer statement c = (first_value statement = ''IF'')"
| "sample_stmt_handles ElseIfHeaderLexer statement c =
     (normalize_whitespace (first_value statement) = ''ELSE IF'')"
| "sample_stmt_handles ElseHeaderLexer statement c = (first_value statement = ''ELSE'')"
| "sample_stmt_handles EndLexer statement c = (first_value statement = ''END'')"
| "sample_stmt_handles ExceptHeaderLexer statement c = (first_value statement = ''EXCEPT'')"
| "sample_stmt_handles FinallyHeaderLexer statement c = (first_value statement = ''FINALLY'')"
| "sample_stmt_handles ReturnLexer statement c = (first_value statement = ''RETURN'')"
| "sample_stmt_handles ContinueLexer statement c = (first_value statement = ''CONTINUE'')"
| "sample_stmt_handles BreakLexer statement c = (first_value statement = ''BREAK'')"
| "sample_stmt_handles TestOrKeywordSettingLexer statement c =
     startswith (first_value statement) ''[''"
| "sample_stmt_handles SettingSectionHeaderLexer statement c =
     startswith (first_value statement) ''*''"
| "sample_stmt_handles VariableSectionHeaderLexer statement c =
     startswith (first_value statement) ''*''"
| "sample_stmt_handles TestCaseSectionHeaderLexer statement c =
     startswith (first_value statement) ''*''"
| "sample_stmt_handles TaskSectionHeaderLexer statement c =
     startswith (first_value statement) ''*''"
| "sample_stmt_handles KeywordSectionHeaderLexer statement c =
     startswith (first_value statement) ''*''"
| "sample_stmt_handles CommentSectionHeaderLexer statement c =
     startswith (first_value statement) ''*''"
| "sample_stmt_handles ErrorSectionHeaderLexer statement c =
     startswith (first_value statement) ''*''"
| "sample_stmt_handles SettingLexer statement c = True"
| "sample_stmt_handles VariableLexer statement c = True"
| "sample_stmt_handles CommentLexer statement c = True"
| "sample_stmt_handles ImplicitCommentLexer statement c = True"
| "sample_stmt_handles KeywordCallLexer statement c = True"

text \<open>The sample section predicates read the first token, as \<^verbatim>\<open>statement[0]\<close> does.\<close>

definition sample_section :: "string \<Rightarrow> statement \<Rightarrow> error + bool" where
  "sample_section header statement =
     (case statement of [] \<Rightarrow> Inl IndexError | t # rest \<Rightarrow> Inr (tvalue t = header))"

definition sample_env :: env where
  "sample_env =
     \<lparr>stmt_handles = sample_stmt_handles,
      stmt_accepts_more = (\<lambda>k statement. False),
      Lexer_handles = (\<lambda>statement c. True),
      setting_section = sample_section ''*** Settings ***'',
      variable_section = sample_section ''*** Variables ***'',
      test_case_section = sample_section ''*** Test Cases ***'',
      task_section = sample_section ''*** Tasks ***'',
      keyword_section = sample_section ''*** Keywords ***'',
      comment_section = sample_section ''*** Comments ***''\<rparr>"

section \<open>Dispatch to a nested block lexer\<close>

text \<open>
  How a nested block lexer receives statements from the composite that owns it
  (\<^verbatim>\<open>BlockLexer.input\<close> of the parent): it is created for a statement its \<^verbatim>\<open>handles\<close>
  accepts and is given that statement; every later statement reaches it only if its
  \<^verbatim>\<open>accepts_more\<close> is true, and the first statement it does not accept goes to a
  sibling, after which it receives nothing more.
\<close>

fun feed :: "env \<Rightarrow> ctx \<Rightarrow> body_lexer \<Rightarrow> statement list \<Rightarrow> error + body_lexer" where
  "feed E c lexer [] = Inr lexer"
| "feed E c lexer (s # ss) =
     (if body_accepts_more E lexer s then
        (case body_input E c lexer s of
           Inl e \<Rightarrow> Inl e
         | Inr lexer' \<Rightarrow> feed E c lexer' ss)
      else Inr lexer)"

definition dispatch_nested ::
  "env \<Rightarrow> ctx \<Rightarrow> nested_cls \<Rightarrow> statement \<Rightarrow> statement list \<Rightarrow> error + body_lexer" where
  "dispatch_nested E c k s ss =
     (case body_input E c (body_new (Nested k)) s of
        Inl e \<Rightarrow> Inl e
      | Inr lexer \<Rightarrow> feed E c lexer ss)"

fun block_level :: "body_lexer \<Rightarrow> int" where
  "block_level (BStmt lexer) = 0"
| "block_level (BInlineIf lexers) = 0"
| "block_level (BNested k lexers level) = level"

lemma lexer_for_Inr_iff:
  "lexer_for name handles new classes statement = Inr k \<longleftrightarrow>
   (\<exists>pre c post. classes = pre @ c # post \<and> (\<forall>x\<in>set pre. \<not> handles x statement) \<and>
      handles c statement \<and> k = new c)"
proof (induction classes)
  case Nil
  then show ?case by simp
next
  case (Cons a as)
  show ?case
  proof (cases "handles a statement")
    case True
    have "(\<exists>pre c post. a # as = pre @ c # post \<and> (\<forall>x\<in>set pre. \<not> handles x statement) \<and>
      handles c statement \<and> k = new c) \<longleftrightarrow> k = new a"
    proof
      assume "\<exists>pre c post. a # as = pre @ c # post \<and> (\<forall>x\<in>set pre. \<not> handles x statement) \<and>
        handles c statement \<and> k = new c"
      then obtain pre c post where *: "a # as = pre @ c # post"
        "\<forall>x\<in>set pre. \<not> handles x statement" "k = new c" by blast
      with True show "k = new a" by (cases pre) auto
    next
      assume "k = new a"
      with True have "a # as = [] @ a # as \<and> (\<forall>x\<in>set []. \<not> handles x statement) \<and>
        handles a statement \<and> k = new a" by simp
      then show "\<exists>pre c post. a # as = pre @ c # post \<and> (\<forall>x\<in>set pre. \<not> handles x statement) \<and>
        handles c statement \<and> k = new c" by blast
    qed
    with True show ?thesis by auto
  next
    case False
    have "(\<exists>pre c post. a # as = pre @ c # post \<and> (\<forall>x\<in>set pre. \<not> handles x statement) \<and>
      handles c statement \<and> k = new c) \<longleftrightarrow>
      (\<exists>pre c post. as = pre @ c # post \<and> (\<forall>x\<in>set pre. \<not> handles x statement) \<and>
      handles c statement \<and> k = new c)" (is "?L \<longleftrightarrow> ?R")
    proof
      assume ?L
      then obtain pre c post where *: "a # as = pre @ c # post"
        "\<forall>x\<in>set pre. \<not> handles x statement" "handles c statement" "k = new c" by blast
      with False obtain pre' where "pre = a # pre'" by (cases pre) auto
      with * show ?R by auto
    next
      assume ?R
      then obtain pre c post where *: "as = pre @ c # post"
        "\<forall>x\<in>set pre. \<not> handles x statement" "handles c statement" "k = new c" by blast
      with False have "a # as = (a # pre) @ c # post \<and> (\<forall>x\<in>set (a # pre). \<not> handles x statement)"
        by simp
      with * show ?L by blast
    qed
    with False Cons.IH show ?thesis by simp
  qed
qed

lemma lexer_for_none:
  "(\<forall>c\<in>set classes. \<not> handles c statement) \<Longrightarrow>
   lexer_for name handles new classes statement = Inl (TypeError name statement)"
  by (induction classes) auto

lemma BlockLexer_input_last:
  "BlockLexer_input acc lf inp lexers statement = Inr (lexers', lexer) \<Longrightarrow>
   lexers' \<noteq> [] \<and> last lexers' = lexer \<and> length lexers' \<le> length lexers + 1"
  by (auto simp: BlockLexer_input_def split: sum.splits bool.splits if_splits)

section \<open>The composite dispatcher: claims C1 and C3\<close>

lemma inline_parts_length:
  "inline_parts E c lexers parts = Inr lexers' \<Longrightarrow>
   length lexers' \<le> length lexers + length (filter (\<lambda>part. part \<noteq> []) parts)"
proof (induction parts arbitrary: lexers)
  case Nil
  then show ?case by simp
next
  case (Cons part parts)
  show ?case
  proof (cases "part = []")
    case True
    with Cons show ?thesis by simp
  next
    case False
    with Cons.prems obtain mid lexer where
      step: "inline_child_input E c lexers part = Inr (mid, lexer)"
      and rest: "inline_parts E c mid parts = Inr lexers'"
      by (auto split: sum.splits)
    from step have "length mid \<le> length lexers + 1"
      unfolding inline_child_input_def by (rule BlockLexer_input_last [THEN conjunct2, THEN conjunct2])
    with Cons.IH [OF rest] False show ?thesis by simp
  qed
qed

text \<open>
  Claim C1 speaks of every composite lexer and of at most one child appended per
  statement. \<^verbatim>\<open>InlineIfLexer\<close> overrides \<^verbatim>\<open>input\<close>: it calls \<^verbatim>\<open>BlockLexer.input\<close> once for
  every non-empty part of the split statement. Given \<^verbatim>\<open>IF\<close>, \<^verbatim>\<open>$x\<close>, \<^verbatim>\<open>Log\<close> it appends two
  children.
\<close>

theorem InlineIfLexer_input_appends_two_counterexample:
  "InlineIfLexer_input sample_env TestCaseContext [] [tok ''IF'', tok ''$x'', tok ''Log'']
     = Inr ([StatementLexer InlineIfHeaderLexer [[tok ''IF'', (tok ''$x'')\<lparr>add_eos_after := True\<rparr>]],
             StatementLexer KeywordCallLexer [[tok ''Log'']]],
            BInlineIf
              [StatementLexer InlineIfHeaderLexer [[tok ''IF'', (tok ''$x'')\<lparr>add_eos_after := True\<rparr>]],
               StatementLexer KeywordCallLexer [[tok ''Log'']]])
   \<and> \<not> length [StatementLexer InlineIfHeaderLexer [[tok ''IF'', (tok ''$x'')\<lparr>add_eos_after := True\<rparr>]],
                StatementLexer KeywordCallLexer [[tok ''Log'']]]
         \<le> length ([] :: stmt_lexer list) + 1"
  by (simp add: InlineIfLexer_input_def InlineIfLexer_split_def inline_child_input_def
      InlineIfLexer_lexer_classes_def BlockLexer_input_def sample_env_def first_value_def
      tok_def stmt_new_def StatementLexer_input_def normalize_whitespace_def is_whitespace_def)

text \<open>
  Claim C1, amended. Every call of the base method \<^verbatim>\<open>BlockLexer.input\<close>: if the composite
  has children and the \<^verbatim>\<open>accepts_more\<close> of the last one returns true, the statement is
  given to that child, and the call returns what the child's \<^verbatim>\<open>input\<close> makes of it, with
  the other children unchanged. If there is no child or the last one returns false,
  \<^verbatim>\<open>lexer_for\<close> instantiates the first class of the candidate list whose \<^verbatim>\<open>handles\<close> is
  true, and the new lexer is given the statement and appended after the unchanged old
  children. An exception of \<^verbatim>\<open>accepts_more\<close> leaves the call. A call that returns has
  delegated to exactly one child, which afterwards is the last child and the lexer
  returned, and has appended at most one child. \<^verbatim>\<open>InlineIfLexer.input\<close> appends at most one
  child for every non-empty part of the split statement.
\<close>

theorem BlockLexer_input_dispatch:
  "(lexers \<noteq> [] \<and> acc (last lexers) statement = Inr True \<longrightarrow>
      BlockLexer_input acc lf inp lexers statement =
        (case inp (last lexers) statement of
           Inl e \<Rightarrow> Inl e
         | Inr lexer \<Rightarrow> Inr (butlast lexers @ [lexer], lexer)))
   \<and> (lexers = [] \<or> acc (last lexers) statement = Inr False \<longrightarrow>
      BlockLexer_input acc lf inp lexers statement =
        (case lf statement of
           Inl e \<Rightarrow> Inl e
         | Inr new_lexer \<Rightarrow>
             (case inp new_lexer statement of
                Inl e \<Rightarrow> Inl e
              | Inr lexer \<Rightarrow> Inr (lexers @ [lexer], lexer))))
   \<and> (lexers \<noteq> [] \<and> acc (last lexers) statement = Inl err \<longrightarrow>
      BlockLexer_input acc lf inp lexers statement = Inl err)
   \<and> (lexer_for name handles new classes statement = Inr k \<longleftrightarrow>
        (\<exists>pre c post. classes = pre @ c # post \<and> (\<forall>x\<in>set pre. \<not> handles x statement) \<and>
           handles c statement \<and> k = new c))
   \<and> (BlockLexer_input acc lf inp lexers statement = Inr (lexers', lexer) \<longrightarrow>
        last lexers' = lexer \<and> length lexers' \<le> length lexers + 1 \<and>
        butlast lexers' =
          (if lexers \<noteq> [] \<and> acc (last lexers) statement = Inr True then butlast lexers else lexers))
   \<and> (InlineIfLexer_input E ct inline statement = Inr (inline', self) \<longrightarrow>
        length inline' \<le>
          length inline + length (filter (\<lambda>part. part \<noteq> []) (InlineIfLexer_split statement)))"
proof -
  have open_child: "lexers \<noteq> [] \<and> acc (last lexers) statement = Inr True \<longrightarrow>
      BlockLexer_input acc lf inp lexers statement =
        (case inp (last lexers) statement of
           Inl e \<Rightarrow> Inl e
         | Inr lexer \<Rightarrow> Inr (butlast lexers @ [lexer], lexer))"
    by (simp add: BlockLexer_input_def)
  have new_child: "lexers = [] \<or> acc (last lexers) statement = Inr False \<longrightarrow>
      BlockLexer_input acc lf inp lexers statement =
        (case lf statement of
           Inl e \<Rightarrow> Inl e
         | Inr new_lexer \<Rightarrow>
             (case inp new_lexer statement of
                Inl e \<Rightarrow> Inl e
              | Inr lexer \<Rightarrow> Inr (lexers @ [lexer], lexer)))"
    by (auto simp: BlockLexer_input_def)
  have raises: "lexers \<noteq> [] \<and> acc (last lexers) statement = Inl err \<longrightarrow>
      BlockLexer_input acc lf inp lexers statement = Inl err"
    by (simp add: BlockLexer_input_def)
  have first_match: "lexer_for name handles new classes statement = Inr k \<longleftrightarrow>
        (\<exists>pre c post. classes = pre @ c # post \<and> (\<forall>x\<in>set pre. \<not> handles x statement) \<and>
           handles c statement \<and> k = new c)"
    by (rule lexer_for_Inr_iff)
  have others: "BlockLexer_input acc lf inp lexers statement = Inr (lexers', lexer) \<longrightarrow>
        last lexers' = lexer \<and> length lexers' \<le> length lexers + 1 \<and>
        butlast lexers' =
          (if lexers \<noteq> [] \<and> acc (last lexers) statement = Inr True then butlast lexers else lexers)"
    by (auto simp: BlockLexer_input_def split: sum.splits bool.splits if_splits)
  have inline: "InlineIfLexer_input E ct inline statement = Inr (inline', self) \<longrightarrow>
        length inline' \<le>
          length inline + length (filter (\<lambda>part. part \<noteq> []) (InlineIfLexer_split statement))"
    by (auto simp: InlineIfLexer_input_def split: sum.splits dest: inline_parts_length)
  from open_child new_child raises first_match others inline show ?thesis
    by (intro conjI)
qed

text \<open>
  A test case body whose last child is an open \<^verbatim>\<open>FOR\<close> loop takes the statement \<^verbatim>\<open>Log\<close>:
  the loop receives it and the call before the loop is untouched. A body whose last
  child is a call takes a \<^verbatim>\<open>FOR\<close> header: a new \<^verbatim>\<open>ForLexer\<close> is appended.
\<close>

theorem BlockLexer_input_dispatch_witness:
  "BlockLexer_input
      (\<lambda>lexer s. Inr (body_accepts_more sample_env lexer s))
      (lexer_for ''TestCaseLexer'' (body_handles sample_env TestCaseContext) body_new
         TestOrKeywordLexer_lexer_classes)
      (body_input sample_env TestCaseContext)
      [BStmt (StatementLexer KeywordCallLexer [[tok ''Setup'']]),
       BNested ForLexer [BStmt (StatementLexer ForHeaderLexer [[tok ''FOR'', tok ''${i}'']])] 1]
      [tok ''Log'']
    = Inr ([BStmt (StatementLexer KeywordCallLexer [[tok ''Setup'']]),
            BNested ForLexer [BStmt (StatementLexer ForHeaderLexer [[tok ''FOR'', tok ''${i}'']]),
                              BStmt (StatementLexer KeywordCallLexer [[tok ''Log'']])] 1],
           BNested ForLexer [BStmt (StatementLexer ForHeaderLexer [[tok ''FOR'', tok ''${i}'']]),
                             BStmt (StatementLexer KeywordCallLexer [[tok ''Log'']])] 1)
   \<and> BlockLexer_input
      (\<lambda>lexer s. Inr (body_accepts_more sample_env lexer s))
      (lexer_for ''TestCaseLexer'' (body_handles sample_env TestCaseContext) body_new
         TestOrKeywordLexer_lexer_classes)
      (body_input sample_env TestCaseContext)
      [BStmt (StatementLexer KeywordCallLexer [[tok ''Setup'']])]
      [tok ''FOR'', tok ''${i}'']
    = Inr ([BStmt (StatementLexer KeywordCallLexer [[tok ''Setup'']]),
            BNested ForLexer [BStmt (StatementLexer ForHeaderLexer [[tok ''FOR'', tok ''${i}'']])] 1],
           BNested ForLexer [BStmt (StatementLexer ForHeaderLexer [[tok ''FOR'', tok ''${i}'']])] 1)"
proof -
  have accepts: "[BStmt (StatementLexer KeywordCallLexer [[tok ''Setup'']]),
       BNested ForLexer [BStmt (StatementLexer ForHeaderLexer [[tok ''FOR'', tok ''${i}'']])] 1] \<noteq> []
     \<and> (\<lambda>lexer s. Inr (body_accepts_more sample_env lexer s))
         (last [BStmt (StatementLexer KeywordCallLexer [[tok ''Setup'']]),
           BNested ForLexer [BStmt (StatementLexer ForHeaderLexer [[tok ''FOR'', tok ''${i}'']])] 1])
         [tok ''Log''] = (Inr True :: error + bool)"
    by simp
  have child: "body_input sample_env TestCaseContext
       (BNested ForLexer [BStmt (StatementLexer ForHeaderLexer [[tok ''FOR'', tok ''${i}'']])] 1)
       [tok ''Log'']
     = Inr (BNested ForLexer [BStmt (StatementLexer ForHeaderLexer [[tok ''FOR'', tok ''${i}'']]),
                              BStmt (StatementLexer KeywordCallLexer [[tok ''Log'']])] 1)"
    by (simp add: BlockLexer_input_def body_lexer_for_def InlineIfLexer_handles_def sample_env_def
        first_value_def tok_def stmt_new_def StatementLexer_input_def update_block_level_def)
  have closed: "[BStmt (StatementLexer KeywordCallLexer [[tok ''Setup'']])] = []
     \<or> (\<lambda>lexer s. Inr (body_accepts_more sample_env lexer s))
         (last [BStmt (StatementLexer KeywordCallLexer [[tok ''Setup'']])])
         [tok ''FOR'', tok ''${i}''] = (Inr False :: error + bool)"
    by (simp add: sample_env_def)
  have scan: "lexer_for ''TestCaseLexer'' (body_handles sample_env TestCaseContext) body_new
         TestOrKeywordLexer_lexer_classes [tok ''FOR'', tok ''${i}''] = Inr (BNested ForLexer [] 0)"
    by (simp add: TestOrKeywordLexer_lexer_classes_def sample_env_def first_value_def tok_def
        startswith_def)
  have created: "body_input sample_env TestCaseContext (BNested ForLexer [] 0) [tok ''FOR'', tok ''${i}'']
     = Inr (BNested ForLexer [BStmt (StatementLexer ForHeaderLexer [[tok ''FOR'', tok ''${i}'']])] 1)"
    by (simp add: BlockLexer_input_def body_lexer_for_def sample_env_def
        first_value_def tok_def stmt_new_def StatementLexer_input_def update_block_level_def)
  from BlockLexer_input_dispatch
      [where lexers = "[BStmt (StatementLexer KeywordCallLexer [[tok ''Setup'']]),
           BNested ForLexer [BStmt (StatementLexer ForHeaderLexer [[tok ''FOR'', tok ''${i}'']])] 1]"
         and acc = "\<lambda>lexer s. Inr (body_accepts_more sample_env lexer s)"
         and statement = "[tok ''Log'']"
         and lf = "lexer_for ''TestCaseLexer'' (body_handles sample_env TestCaseContext) body_new
           TestOrKeywordLexer_lexer_classes"
         and inp = "body_input sample_env TestCaseContext",
       THEN conjunct1, rule_format, OF accepts]
    BlockLexer_input_dispatch
      [where lexers = "[BStmt (StatementLexer KeywordCallLexer [[tok ''Setup'']])]"
         and acc = "\<lambda>lexer s. Inr (body_accepts_more sample_env lexer s)"
         and statement = "[tok ''FOR'', tok ''${i}'']"
         and lf = "lexer_for ''TestCaseLexer'' (body_handles sample_env TestCaseContext) body_new
           TestOrKeywordLexer_lexer_classes"
         and inp = "body_input sample_env TestCaseContext",
       THEN conjunct2, THEN conjunct1, rule_format, OF closed]
    child scan created
  show ?thesis by simp
qed

text \<open>
  Claim C3. If no class of the candidate list handles the statement, \<^verbatim>\<open>lexer_for\<close> raises
  the \<^verbatim>\<open>TypeError\<close> that carries the name of the composite's class and the statement.
  \<^verbatim>\<open>input\<close> raises the same error whenever it has no open last child and so calls
  \<^verbatim>\<open>lexer_for\<close>; the only way it returns is by delegating the statement to the open last
  child, so the statement is never dropped.
\<close>

theorem lexer_for_raises_TypeError:
  assumes "\<forall>c\<in>set classes. \<not> handles c statement"
  shows "lexer_for name handles new classes statement = Inl (TypeError name statement)
       \<and> (lexers = [] \<or> acc (last lexers) statement = Inr False \<longrightarrow>
            BlockLexer_input acc (lexer_for name handles new classes) inp lexers statement
              = Inl (TypeError name statement))
       \<and> (\<forall>lexers' lexer.
            BlockLexer_input acc (lexer_for name handles new classes) inp lexers statement
              = Inr (lexers', lexer) \<longrightarrow>
            lexers \<noteq> [] \<and> acc (last lexers) statement = Inr True \<and>
            inp (last lexers) statement = Inr lexer)"
proof -
  have raises: "lexer_for name handles new classes statement = Inl (TypeError name statement)"
    using assms by (rule lexer_for_none)
  then show ?thesis
    by (auto simp: BlockLexer_input_def split: sum.splits bool.splits)
qed

text \<open>
  With collaborators whose statement lexers handle nothing, no candidate of \<^verbatim>\<open>IfLexer\<close>
  handles the statement \<^verbatim>\<open>x\<close>, and \<^verbatim>\<open>lexer_for\<close> raises.
\<close>

theorem lexer_for_raises_TypeError_witness:
  "list_all
      (\<lambda>k. \<not> body_handles (sample_env\<lparr>stmt_handles := \<lambda>k s c. False\<rparr>) TestCaseContext k [tok ''x''])
      (nested_lexer_classes IfLexer)
   \<and> body_lexer_for (sample_env\<lparr>stmt_handles := \<lambda>k s c. False\<rparr>) TestCaseContext
        (nested_name IfLexer) (nested_lexer_classes IfLexer) [tok ''x'']
       = Inl (TypeError ''IfLexer'' [tok ''x''])"
proof -
  have h: "\<forall>k\<in>set (nested_lexer_classes IfLexer).
      \<not> body_handles (sample_env\<lparr>stmt_handles := \<lambda>k s c. False\<rparr>) TestCaseContext k [tok ''x'']"
    by (simp add: InlineIfLexer_handles_def)
  from lexer_for_raises_TypeError
      [where handles = "body_handles (sample_env\<lparr>stmt_handles := \<lambda>k s c. False\<rparr>) TestCaseContext"
         and classes = "nested_lexer_classes IfLexer" and statement = "[tok ''x'']"
         and name = "nested_name IfLexer" and new = body_new, OF h] h
  show ?thesis by (simp add: body_lexer_for_def list_all_iff)
qed

section \<open>The inline-conditional lexer: claim C8\<close>

text \<open>
  Claim C8. \<^verbatim>\<open>InlineIfLexer.handles\<close> is false for every statement of two or fewer tokens,
  whatever their texts; it is true exactly when the statement has more than two tokens
  and \<^verbatim>\<open>InlineIfHeaderLexer.handles\<close> is true.
\<close>

theorem InlineIfLexer_handles_length:
  "(length statement \<le> 2 \<longrightarrow> \<not> InlineIfLexer_handles E statement c)
   \<and> (InlineIfLexer_handles E statement c \<longleftrightarrow>
        2 < length statement \<and> stmt_handles E InlineIfHeaderLexer statement c)"
  by (auto simp: InlineIfLexer_handles_def)

theorem InlineIfLexer_handles_length_witness:
  "length [tok ''IF'', tok ''$x''] \<le> 2
   \<and> \<not> InlineIfLexer_handles sample_env [tok ''IF'', tok ''$x''] TestCaseContext
   \<and> InlineIfLexer_handles sample_env [tok ''IF'', tok ''$x'', tok ''Log''] TestCaseContext"
  using InlineIfLexer_handles_length [of "[tok ''IF'', tok ''$x'']" sample_env TestCaseContext]
    InlineIfLexer_handles_length [of "[tok ''IF'', tok ''$x'', tok ''Log'']" sample_env TestCaseContext]
  by (simp add: sample_env_def first_value_def tok_def)

section \<open>Unknown section headers: claim C4\<close>

text \<open>With \<^verbatim>\<open>handles\<close> that never raise, the two models of \<^verbatim>\<open>lexer_for\<close> are one.\<close>

lemma lexer_for_raising_agrees:
  "lexer_for_raising name (\<lambda>c s. Inr (handles c s)) new classes statement =
   lexer_for name handles new classes statement"
  by (induction classes) simp_all











section \<open>The order of \<^verbatim>\<open>lex()\<close>: claims C5 and C6\<close>

lemma lex_with_priority_before:
  assumes "a \<in> set lexers" and "priority a" and "x \<in> set (lex_child a)"
    and "b \<in> set lexers" and "\<not> priority b" and "y \<in> set (lex_child b)"
  shows "\<exists>xs ys zs. lex_with_priority priority lex_child lexers = xs @ x # ys @ y # zs"
proof -
  have "x \<in> set (concat (map lex_child (filter priority lexers)))"
    using assms(1-3) by auto
  from split_list [OF this]
  obtain xs ys where 1: "concat (map lex_child (filter priority lexers)) = xs @ x # ys"
    by blast
  have "y \<in> set (concat (map lex_child (filter (\<lambda>lexer. \<not> priority lexer) lexers)))"
    using assms(4-6) by auto
  from split_list [OF this]
  obtain us zs where
    2: "concat (map lex_child (filter (\<lambda>lexer. \<not> priority lexer) lexers)) = us @ y # zs"
    by blast
  have "lex_with_priority priority lex_child lexers = xs @ x # (ys @ us) @ y # zs"
    by (simp add: lex_with_priority_def 1 2)
  then show ?thesis by blast
qed

text \<open>
  Claim C5. \<^verbatim>\<open>FileLexer.lex()\<close> runs \<^verbatim>\<open>lex()\<close> on the children that are instances of
  \<^verbatim>\<open>SettingSectionLexer\<close> (by \<^verbatim>\<open>isinstance\<close>, so \<^verbatim>\<open>KeywordSectionLexer\<close> children, whose
  class derives from it, are among them), in append order, and then on the remaining
  children in append order. \<^verbatim>\<open>TestCaseLexer.lex()\<close> does the same with
  \<^verbatim>\<open>TestOrKeywordSettingLexer\<close> children, so in a test body a setting statement is lexed
  before a call statement wherever the two stand.
\<close>

theorem priority_lexing:
  "is_SettingSectionLexer (SectionLexer k owned) = (k = SettingSectionLexer \<or> k = KeywordSectionLexer)
   \<and> FileLexer_lex (FileLexer sections) =
     concat (map section_lex (filter is_SettingSectionLexer sections)) @
     concat (map section_lex (filter (\<lambda>lexer. \<not> is_SettingSectionLexer lexer) sections))
   \<and> named_lex (TestOrKeywordLexer TestCaseLexer seen lexers) =
     concat (map body_lex (filter is_TestOrKeywordSettingLexer lexers)) @
     concat (map body_lex (filter (\<lambda>lexer. \<not> is_TestOrKeywordSettingLexer lexer) lexers))
   \<and> (stmt_class setting = TestOrKeywordSettingLexer \<and> stmt_class call \<noteq> TestOrKeywordSettingLexer
        \<and> BStmt setting \<in> set lexers \<and> BStmt call \<in> set lexers \<longrightarrow>
        (\<exists>xs ys zs. named_lex (TestOrKeywordLexer TestCaseLexer seen lexers)
             = xs @ setting # ys @ call # zs))"
proof -
  have file_order: "FileLexer_lex (FileLexer sections) =
     concat (map section_lex (filter is_SettingSectionLexer sections)) @
     concat (map section_lex (filter (\<lambda>lexer. \<not> is_SettingSectionLexer lexer) sections))"
    by (simp add: FileLexer_lex_def lex_with_priority_def)
  have test_order: "named_lex (TestOrKeywordLexer TestCaseLexer seen lexers) =
     concat (map body_lex (filter is_TestOrKeywordSettingLexer lexers)) @
     concat (map body_lex (filter (\<lambda>lexer. \<not> is_TestOrKeywordSettingLexer lexer) lexers))"
    by (simp add: lex_with_priority_def)
  have order: "\<exists>xs ys zs. named_lex (TestOrKeywordLexer TestCaseLexer seen lexers)
             = xs @ setting # ys @ call # zs"
    if "stmt_class setting = TestOrKeywordSettingLexer \<and> stmt_class call \<noteq> TestOrKeywordSettingLexer
        \<and> BStmt setting \<in> set lexers \<and> BStmt call \<in> set lexers"
  proof -
    have "\<exists>xs ys zs. lex_with_priority is_TestOrKeywordSettingLexer body_lex lexers
            = xs @ setting # ys @ call # zs"
      using that
      by (intro lex_with_priority_before [where a = "BStmt setting" and b = "BStmt call"]) simp_all
    then show ?thesis by simp
  qed
  from file_order test_order order show ?thesis by simp
qed

text \<open>
  A test body with the call \<^verbatim>\<open>Log\<close> before the setting \<^verbatim>\<open>[Tags]\<close>, and a file with a
  variable section before a setting section.
\<close>

theorem priority_lexing_witness:
  "named_lex (TestOrKeywordLexer TestCaseLexer True
       [BStmt (StatementLexer KeywordCallLexer [[tok ''Log'']]),
        BStmt (StatementLexer TestOrKeywordSettingLexer [[tok ''[Tags]'']])])
     = [StatementLexer TestOrKeywordSettingLexer [[tok ''[Tags]'']],
        StatementLexer KeywordCallLexer [[tok ''Log'']]]
   \<and> FileLexer_lex (FileLexer
       [SectionLexer VariableSectionLexer [SCStmt (StatementLexer VariableLexer [[tok ''${x}'']])],
        SectionLexer SettingSectionLexer [SCStmt (StatementLexer SettingLexer [[tok ''Library'']])]])
     = [StatementLexer SettingLexer [[tok ''Library'']], StatementLexer VariableLexer [[tok ''${x}'']]]"
  using priority_lexing
    [where sections = "[SectionLexer VariableSectionLexer [SCStmt (StatementLexer VariableLexer [[tok ''${x}'']])],
        SectionLexer SettingSectionLexer [SCStmt (StatementLexer SettingLexer [[tok ''Library'']])]]"
      and seen = True
      and lexers = "[BStmt (StatementLexer KeywordCallLexer [[tok ''Log'']]),
        BStmt (StatementLexer TestOrKeywordSettingLexer [[tok ''[Tags]'']])]"]
  by (simp add: section_lex_def BlockLexer_lex_def)

text \<open>
  Claim C6 says that \<^verbatim>\<open>KeywordLexer.lex()\<close> lexes the settings of the body first. The
  class does not override \<^verbatim>\<open>lex\<close>: in a keyword body with the call \<^verbatim>\<open>Log\<close> before the
  setting \<^verbatim>\<open>[Tags]\<close>, the call is lexed first, which is not the priority order.
\<close>

theorem KeywordLexer_lex_priority_counterexample:
  "named_lex (TestOrKeywordLexer KeywordLexer True
       [BStmt (StatementLexer KeywordCallLexer [[tok ''Log'']]),
        BStmt (StatementLexer TestOrKeywordSettingLexer [[tok ''[Tags]'']])])
     = [StatementLexer KeywordCallLexer [[tok ''Log'']],
        StatementLexer TestOrKeywordSettingLexer [[tok ''[Tags]'']]]
   \<and> named_lex (TestOrKeywordLexer KeywordLexer True
       [BStmt (StatementLexer KeywordCallLexer [[tok ''Log'']]),
        BStmt (StatementLexer TestOrKeywordSettingLexer [[tok ''[Tags]'']])])
     \<noteq> lex_with_priority is_TestOrKeywordSettingLexer body_lex
       [BStmt (StatementLexer KeywordCallLexer [[tok ''Log'']]),
        BStmt (StatementLexer TestOrKeywordSettingLexer [[tok ''[Tags]'']])]"
  by (simp add: BlockLexer_lex_def lex_with_priority_def)

text \<open>
  Claim C6, amended. \<^verbatim>\<open>KeywordLexer.lex()\<close> runs \<^verbatim>\<open>lex()\<close> on every child in append order:
  a statement lexer of the body, a setting included, is lexed after all the children
  before it and before all the children after it.
\<close>

theorem KeywordLexer_lex_append_order:
  "named_lex (TestOrKeywordLexer KeywordLexer seen lexers) = concat (map body_lex lexers)
   \<and> named_lex (TestOrKeywordLexer KeywordLexer seen (earlier @ BStmt lexer # later)) =
       concat (map body_lex earlier) @ lexer # concat (map body_lex later)"
proof -
  have order: "named_lex (TestOrKeywordLexer KeywordLexer seen owned) = concat (map body_lex owned)"
    for owned
    by (simp add: BlockLexer_lex_def)
  show ?thesis
    unfolding order by simp
qed

text \<open>A keyword body with a setting between two calls.\<close>

theorem KeywordLexer_lex_append_order_witness:
  "named_lex (TestOrKeywordLexer KeywordLexer True
       [BStmt (StatementLexer KeywordCallLexer [[tok ''Log'']]),
        BStmt (StatementLexer TestOrKeywordSettingLexer [[tok ''[Tags]'']]),
        BStmt (StatementLexer KeywordCallLexer [[tok ''Done'']])])
     = [StatementLexer KeywordCallLexer [[tok ''Log'']],
        StatementLexer TestOrKeywordSettingLexer [[tok ''[Tags]'']],
        StatementLexer KeywordCallLexer [[tok ''Done'']]]"
  using KeywordLexer_lex_append_order [where seen = True
      and earlier = "[BStmt (StatementLexer KeywordCallLexer [[tok ''Log'']])]"
      and lexer = "StatementLexer TestOrKeywordSettingLexer [[tok ''[Tags]'']]"
      and later = "[BStmt (StatementLexer KeywordCallLexer [[tok ''Done'']])]"]
  by simp

section \<open>The name of a test case or keyword: claim C7\<close>

text \<open>
  Claim C7. The first statement a test-case or keyword lexer is given (\<^verbatim>\<open>_name_seen\<close>
  still false): its first token is popped and gets the name type of the block,
  \<^verbatim>\<open>TESTCASE_NAME\<close> or \<^verbatim>\<open>KEYWORD_NAME\<close>. If no token follows, nothing is dispatched and
  \<^verbatim>\<open>_add_eos_after\<close> is left alone. If tokens follow, \<^verbatim>\<open>_add_eos_after\<close> is set on the name
  token and the remaining tokens are given to \<^verbatim>\<open>BlockLexer.input\<close> as a body statement.
\<close>

theorem TestOrKeywordLexer_input_name:
  "name_type TestCaseLexer = TESTCASE_NAME \<and> name_type KeywordLexer = KEYWORD_NAME
   \<and> TestOrKeywordLexer_input E (TestOrKeywordLexer k False lexers) [t]
       = Inr (TestOrKeywordLexer k True lexers, [t\<lparr>ttype := Some (name_type k)\<rparr>])
   \<and> TestOrKeywordLexer_input E (TestOrKeywordLexer k False lexers) (t # u # rest)
       = (case BlockLexer_input
                 (\<lambda>lexer s. Inr (body_accepts_more E lexer s))
                 (body_lexer_for E (named_ctx k) (named_name k) TestOrKeywordLexer_lexer_classes)
                 (body_input E (named_ctx k))
                 lexers (u # rest) of
            Inl e \<Rightarrow> Inl e
          | Inr (lexers', lexer) \<Rightarrow>
              Inr (TestOrKeywordLexer k True lexers',
                   [t\<lparr>ttype := Some (name_type k), add_eos_after := True\<rparr>]))"
  by (simp add: TestOrKeywordLexer_input_def handle_name_or_indentation_def split: sum.splits)

text \<open>The name line \<^verbatim>\<open>MyTest\<close>, empty cell, \<^verbatim>\<open>Log\<close>, \<^verbatim>\<open>hi\<close> given to a new test-case lexer.\<close>

theorem TestOrKeywordLexer_input_name_witness:
  "TestOrKeywordLexer_input sample_env (TestOrKeywordLexer TestCaseLexer False [])
      [tok ''MyTest'', tok '''', tok ''Log'', tok ''hi'']
     = Inr (TestOrKeywordLexer TestCaseLexer True
              [BStmt (StatementLexer KeywordCallLexer [[tok '''', tok ''Log'', tok ''hi'']])],
            [\<lparr>tvalue = ''MyTest'', ttype = Some TESTCASE_NAME,
              add_eos_before = False, add_eos_after = True\<rparr>])"
proof -
  have dispatch: "BlockLexer_input
         (\<lambda>lexer s. Inr (body_accepts_more sample_env lexer s))
         (body_lexer_for sample_env TestCaseContext ''TestCaseLexer'' TestOrKeywordLexer_lexer_classes)
         (body_input sample_env TestCaseContext)
         [] [tok '''', tok ''Log'', tok ''hi'']
       = Inr ([BStmt (StatementLexer KeywordCallLexer [[tok '''', tok ''Log'', tok ''hi'']])],
              BStmt (StatementLexer KeywordCallLexer [[tok '''', tok ''Log'', tok ''hi'']]))"
    by (simp add: BlockLexer_input_def body_lexer_for_def TestOrKeywordLexer_lexer_classes_def
        InlineIfLexer_handles_def sample_env_def first_value_def startswith_def tok_def
        stmt_new_def StatementLexer_input_def)
  from TestOrKeywordLexer_input_name [of sample_env TestCaseLexer "[]" "tok ''MyTest''" "tok ''''" "[tok ''Log'', tok ''hi'']"]
    dispatch
  show ?thesis by (simp add: tok_def)
qed

section \<open>Splitting an inline conditional: claim C9\<close>

lemma normalize_whitespace_IF: "normalize_whitespace ''IF'' = ''IF''"
  by (simp add: normalize_whitespace_def is_whitespace_def)

lemma normalize_whitespace_ELSE: "normalize_whitespace ''ELSE'' = ''ELSE''"
  by (simp add: normalize_whitespace_def is_whitespace_def)

text \<open>
  Claim C9 states its \<^verbatim>\<open>ELSE IF\<close> part for every token whose normalised text is
  \<^verbatim>\<open>ELSE IF\<close>. The loop tests \<^verbatim>\<open>expect_condition\<close> first: in \<^verbatim>\<open>IF\<close>, \<^verbatim>\<open>ELSE IF\<close>, \<^verbatim>\<open>x\<close> the
  second token is taken as the condition of the \<^verbatim>\<open>IF\<close>. No boundary is requested before
  it and no sub-statement starts with it.
\<close>

theorem ELSE_IF_as_condition_counterexample:
  "normalize_whitespace (tvalue (tok ''ELSE IF'')) = ''ELSE IF''
   \<and> InlineIfLexer_split [tok ''IF'', tok ''ELSE IF'', tok ''x'']
       = [[tok ''IF'', (tok ''ELSE IF'')\<lparr>add_eos_after := True\<rparr>], [tok ''x'']]
   \<and> add_eos_before ((tok ''ELSE IF'')\<lparr>add_eos_after := True\<rparr>) = False"
  by (simp add: InlineIfLexer_split_def tok_def normalize_whitespace_def is_whitespace_def)

text \<open>
  Claim C9, amended. In the loop of \<^verbatim>\<open>_split\<close>, with \<^verbatim>\<open>current\<close> accumulated and no
  condition awaited: a token \<^verbatim>\<open>ELSE\<close> gets \<^verbatim>\<open>_add_eos_before\<close>, and \<^verbatim>\<open>_add_eos_after\<close>
  exactly if tokens remain after it; \<^verbatim>\<open>current\<close> is yielded, then the list holding
  only that token, and the loop goes on with an empty \<^verbatim>\<open>current\<close>. A token whose
  normalised text is \<^verbatim>\<open>ELSE IF\<close> gets \<^verbatim>\<open>_add_eos_before\<close>; \<^verbatim>\<open>current\<close> is yielded and the
  loop goes on with \<^verbatim>\<open>current\<close> holding that token and a condition awaited. While a
  condition is awaited, the next token, whatever its text, is appended to \<^verbatim>\<open>current\<close>
  (with \<^verbatim>\<open>_add_eos_after\<close> exactly if tokens remain after it), \<^verbatim>\<open>current\<close> is yielded and
  the loop goes on with an empty \<^verbatim>\<open>current\<close> and no condition awaited.
\<close>

theorem InlineIfLexer_split_boundaries:
  "(tvalue t = ''ELSE'' \<longrightarrow>
      split_loop current False (t # rest) =
        current
          # [if rest \<noteq> [] then t\<lparr>add_eos_before := True, add_eos_after := True\<rparr>
             else t\<lparr>add_eos_before := True\<rparr>]
          # split_loop [] False rest)
   \<and> (normalize_whitespace (tvalue t) = ''ELSE IF'' \<longrightarrow>
      split_loop current False (t # rest) =
        current # split_loop [t\<lparr>add_eos_before := True\<rparr>] True rest)
   \<and> split_loop current True (t # rest) =
        (current @ [if rest \<noteq> [] then t\<lparr>add_eos_after := True\<rparr> else t])
          # split_loop [] False rest"
proof -
  have else_case: "tvalue t = ''ELSE'' \<longrightarrow>
      split_loop current False (t # rest) =
        current
          # [if rest \<noteq> [] then t\<lparr>add_eos_before := True, add_eos_after := True\<rparr>
             else t\<lparr>add_eos_before := True\<rparr>]
          # split_loop [] False rest"
    by (simp add: normalize_whitespace_ELSE)
  have else_if_case: "normalize_whitespace (tvalue t) = ''ELSE IF'' \<longrightarrow>
      split_loop current False (t # rest) =
        current # split_loop [t\<lparr>add_eos_before := True\<rparr>] True rest"
  proof
    assume ws: "normalize_whitespace (tvalue t) = ''ELSE IF''"
    have "tvalue t \<noteq> ''IF''"
      using ws normalize_whitespace_IF by auto
    with ws show "split_loop current False (t # rest) =
        current # split_loop [t\<lparr>add_eos_before := True\<rparr>] True rest" by simp
  qed
  have condition: "split_loop current True (t # rest) =
        (current @ [if rest \<noteq> [] then t\<lparr>add_eos_after := True\<rparr> else t])
          # split_loop [] False rest"
    by simp
  from else_case else_if_case condition show ?thesis by (intro conjI)
qed

text \<open>
  An inline conditional that assigns its result, with an \<^verbatim>\<open>ELSE IF\<close> and an \<^verbatim>\<open>ELSE\<close>
  branch.
\<close>

theorem InlineIfLexer_split_boundaries_witness:
  "InlineIfLexer_split
      [tok ''${r}'', tok ''IF'', tok ''$x'', tok ''A'', tok ''ELSE IF'', tok ''$y'', tok ''B'',
       tok ''ELSE'', tok ''C'']
     = [[tok ''${r}'', tok ''IF'', (tok ''$x'')\<lparr>add_eos_after := True\<rparr>],
        [tok ''A''],
        [(tok ''ELSE IF'')\<lparr>add_eos_before := True\<rparr>, (tok ''$y'')\<lparr>add_eos_after := True\<rparr>],
        [tok ''B''],
        [(tok ''ELSE'')\<lparr>add_eos_before := True, add_eos_after := True\<rparr>],
        [tok ''C'']]"
proof -
  have ws: "normalize_whitespace (tvalue (tok ''ELSE IF'')) = ''ELSE IF''"
    by (simp add: tok_def normalize_whitespace_def is_whitespace_def)
  have el: "tvalue (tok ''ELSE'') = ''ELSE''"
    by (simp add: tok_def)
  have start: "split_loop [] False
      [tok ''${r}'', tok ''IF'', tok ''$x'', tok ''A'', tok ''ELSE IF'', tok ''$y'', tok ''B'',
       tok ''ELSE'', tok ''C'']
     = split_loop [tok ''${r}'', tok ''IF''] True
         [tok ''$x'', tok ''A'', tok ''ELSE IF'', tok ''$y'', tok ''B'', tok ''ELSE'', tok ''C'']"
    by (simp add: tok_def normalize_whitespace_def is_whitespace_def)
  have body: "split_loop [] False [tok ''A'', tok ''ELSE IF'', tok ''$y'', tok ''B'', tok ''ELSE'', tok ''C'']
     = split_loop [tok ''A''] False [tok ''ELSE IF'', tok ''$y'', tok ''B'', tok ''ELSE'', tok ''C'']"
    by (simp add: tok_def normalize_whitespace_def is_whitespace_def)
  have middle: "split_loop [] False [tok ''B'', tok ''ELSE'', tok ''C'']
     = split_loop [tok ''B''] False [tok ''ELSE'', tok ''C'']"
    by (simp add: tok_def normalize_whitespace_def is_whitespace_def)
  have finish: "split_loop [] False [tok ''C''] = [[tok ''C'']]"
    by (simp add: tok_def normalize_whitespace_def is_whitespace_def)
  from InlineIfLexer_split_boundaries [where t = "tok ''$x''" and current = "[tok ''${r}'', tok ''IF'']"
        and rest = "[tok ''A'', tok ''ELSE IF'', tok ''$y'', tok ''B'', tok ''ELSE'', tok ''C'']"]
    InlineIfLexer_split_boundaries [where t = "tok ''ELSE IF''" and current = "[tok ''A'']"
        and rest = "[tok ''$y'', tok ''B'', tok ''ELSE'', tok ''C'']"]
    InlineIfLexer_split_boundaries [where t = "tok ''$y''" and current = "[(tok ''ELSE IF'')\<lparr>add_eos_before := True\<rparr>]"
        and rest = "[tok ''B'', tok ''ELSE'', tok ''C'']"]
    InlineIfLexer_split_boundaries [where t = "tok ''ELSE''" and current = "[tok ''B'']" and rest = "[tok ''C'']"]
    ws el start body middle finish
  show ?thesis by (simp add: InlineIfLexer_split_def)
qed

section \<open>The block level of a nested block lexer: claims C2 and C10\<close>

lemma header_not_end: "is_block_header lexer \<Longrightarrow> \<not> is_end lexer"
  by (cases lexer) auto

lemma update_block_level_eq:
  "update_block_level lexer level =
     level + (if is_block_header lexer then 1 else 0) - (if is_end lexer then 1 else 0)"
  by (simp add: update_block_level_def Let_def)

lemma nested_input_step:
  assumes "body_input E c (BNested k lexers level) statement = Inr lexer'"
  shows "\<exists>lexers'. lexers' \<noteq> [] \<and>
           lexer' = BNested k lexers' (update_block_level (last lexers') level)"
proof -
  from assms obtain lexers' lexer where
    disp: "BlockLexer_input (\<lambda>lexer s. Inr (body_accepts_more E lexer s))
             (body_lexer_for E c (nested_name k) (nested_lexer_classes k))
             (body_input E c) lexers statement = Inr (lexers', lexer)"
    and res: "lexer' = BNested k lexers' (update_block_level lexer level)"
    by (auto split: sum.splits)
  from BlockLexer_input_last [OF disp] res show ?thesis by auto
qed

lemma InlineIfLexer_input_self:
  "InlineIfLexer_input E c lexers statement = Inr (lexers', self) \<Longrightarrow> self = BInlineIf lexers'"
  by (auto simp: InlineIfLexer_input_def split: sum.splits)

lemma nested_first_statement:
  assumes "nested_handles E k s c"
    and "body_input E c (BNested k [] 0) s = Inr lexer"
  shows "\<exists>lexers level. lexer = BNested k lexers level \<and> 0 \<le> level"
proof -
  from assms(2) obtain child child' where
    scan: "body_lexer_for E c (nested_name k) (nested_lexer_classes k) s = Inr child"
    and inp: "body_input E c child s = Inr child'"
    and res: "lexer = BNested k [child'] (update_block_level child' 0)"
    by (auto simp: BlockLexer_input_def split: sum.splits)
  from assms(1) scan have "(\<exists>h. child = BStmt (stmt_new h)) \<or> child = BInlineIf []"
    by (cases k) (auto simp: body_lexer_for_def split: if_splits)
  then have "\<not> is_end child' \<or> is_block_header child'"
  proof
    assume "\<exists>h. child = BStmt (stmt_new h)"
    then obtain h where h: "child = BStmt (stmt_new h)" by blast
    with assms(1) scan have "h \<in> {ForHeaderLexer, IfHeaderLexer, TryHeaderLexer, WhileHeaderLexer}"
      by (cases k) (auto simp: body_lexer_for_def stmt_new_def split: if_splits)
    with h inp show ?thesis
      by (auto simp: stmt_new_def StatementLexer_input_def)
  next
    assume "child = BInlineIf []"
    with inp show ?thesis by (auto split: sum.splits dest: InlineIfLexer_input_self)
  qed
  then have "0 \<le> update_block_level child' 0"
    by (auto simp: update_block_level_eq dest: header_not_end)
  with res show ?thesis by blast
qed

lemma feed_keeps_level:
  assumes "0 \<le> level" and "feed E c (BNested k lexers level) ss = Inr lexer"
  shows "\<exists>lexers' level'. lexer = BNested k lexers' level' \<and> 0 \<le> level'"
  using assms
proof (induction ss arbitrary: lexers level)
  case Nil
  then show ?case by auto
next
  case (Cons s ss)
  show ?case
  proof (cases "0 < level")
    case False
    with Cons.prems show ?thesis by auto
  next
    case True
    with Cons.prems(2) obtain mid where
      step: "body_input E c (BNested k lexers level) s = Inr mid"
      and rest: "feed E c mid ss = Inr lexer"
      by (auto split: sum.splits)
    from nested_input_step [OF step] obtain lexers' where
      mid: "mid = BNested k lexers' (update_block_level (last lexers') level)" by blast
    have "0 \<le> update_block_level (last lexers') level"
      using True by (simp add: update_block_level_eq)
    from Cons.IH [OF this] rest mid show ?thesis by simp
  qed
qed

lemma feed_closed: "feed E c (BNested k lexers 0) ss = Inr (BNested k lexers 0)"
  by (cases ss) simp_all


text \<open>
  Claim C2. A new nested block lexer has block level 0, and its \<^verbatim>\<open>accepts_more\<close> is true
  exactly while the block level is positive. Every \<^verbatim>\<open>input\<close> that returns adds 1 to the
  block level if the child that took the statement (the last child afterwards) is a
  \<^verbatim>\<open>ForHeaderLexer\<close>, \<^verbatim>\<open>IfHeaderLexer\<close>, \<^verbatim>\<open>TryHeaderLexer\<close> or \<^verbatim>\<open>WhileHeaderLexer\<close>, subtracts 1
  if it is an \<^verbatim>\<open>EndLexer\<close>, and leaves it alone otherwise; no child is both. When the lexer
  is created for a statement its \<^verbatim>\<open>handles\<close> accepts and later statements reach it only
  while \<^verbatim>\<open>accepts_more\<close> is true, the block level is never negative. At block level 0
  the lexer receives nothing more, whatever statements follow, so it stays closed.
\<close>

theorem NestedBlockLexer_block_level:
  "block_level (body_new (Nested k)) = 0
   \<and> (\<forall>st. body_accepts_more E (BNested k lexers level) st = (0 < level))
   \<and> (body_input E c (BNested k lexers level) statement = Inr lexer' \<longrightarrow>
        (\<exists>lexers'. lexers' \<noteq> [] \<and> lexer' = BNested k lexers' (block_level lexer') \<and>
           block_level lexer' =
             level + (if is_block_header (last lexers') then 1 else 0)
                   - (if is_end (last lexers') then 1 else 0)))
   \<and> (\<forall>lexer. \<not> (is_block_header lexer \<and> is_end lexer))
   \<and> (nested_handles E k s c \<and> dispatch_nested E c k s ss = Inr lexer \<longrightarrow>
        0 \<le> block_level lexer \<and> (\<exists>owned. lexer = BNested k owned (block_level lexer)))
   \<and> feed E c (BNested k lexers 0) ss = Inr (BNested k lexers 0)"
proof -
  have step: "\<exists>lexers'. lexers' \<noteq> [] \<and> lexer' = BNested k lexers' (block_level lexer') \<and>
           block_level lexer' =
             level + (if is_block_header (last lexers') then 1 else 0)
                   - (if is_end (last lexers') then 1 else 0)"
    if "body_input E c (BNested k lexers level) statement = Inr lexer'"
  proof -
    from nested_input_step [OF that] obtain lexers' where
      "lexers' \<noteq> []" "lexer' = BNested k lexers' (update_block_level (last lexers') level)"
      by blast
    then show ?thesis by (auto simp: update_block_level_eq)
  qed
  have exclusive: "\<forall>lexer. \<not> (is_block_header lexer \<and> is_end lexer)"
    using header_not_end by blast
  have run: "0 \<le> block_level lexer \<and> (\<exists>owned. lexer = BNested k owned (block_level lexer))"
    if "nested_handles E k s c \<and> dispatch_nested E c k s ss = Inr lexer"
  proof -
    from that obtain first where
      first: "body_input E c (BNested k [] 0) s = Inr first" and rest: "feed E c first ss = Inr lexer"
      by (auto simp: dispatch_nested_def split: sum.splits)
    from that first obtain owned level' where
      "first = BNested k owned level'" "0 \<le> level'"
      using nested_first_statement by blast
    with rest obtain owned' level'' where "lexer = BNested k owned' level''" "0 \<le> level''"
      using feed_keeps_level by blast
    then show ?thesis by simp
  qed
  from step exclusive run feed_closed [of E c k lexers ss] show ?thesis
    by simp
qed


text \<open>The definitions that evaluate the lexers under the sample collaborators.\<close>

lemmas sample_eval =
  BlockLexer_input_def body_lexer_for_def InlineIfLexer_handles_def sample_env_def
  first_value_def startswith_def tok_def stmt_new_def StatementLexer_input_def
  normalize_whitespace_def is_whitespace_def update_block_level_def

text \<open>
  A \<^verbatim>\<open>FOR\<close> loop holding a second \<^verbatim>\<open>FOR\<close> loop and a call: the block level goes 1, 2, 2,
  1, 0, and the statement after the second \<^verbatim>\<open>END\<close> is not taken.
\<close>

theorem NestedBlockLexer_block_level_witness:
  "nested_handles sample_env ForLexer [tok ''FOR'', tok ''${i}''] TestCaseContext
   \<and> dispatch_nested sample_env TestCaseContext ForLexer [tok ''FOR'', tok ''${i}'']
        [[tok ''FOR'', tok ''${j}''], [tok ''Log''], [tok ''END''], [tok ''END''], [tok ''Log'']]
     = Inr (BNested ForLexer
              [BStmt (StatementLexer ForHeaderLexer [[tok ''FOR'', tok ''${i}'']]),
               BStmt (StatementLexer ForHeaderLexer [[tok ''FOR'', tok ''${j}'']]),
               BStmt (StatementLexer KeywordCallLexer [[tok ''Log'']]),
               BStmt (StatementLexer EndLexer [[tok ''END'']]),
               BStmt (StatementLexer EndLexer [[tok ''END'']])] 0)"
proof -
  have h: "nested_handles sample_env ForLexer [tok ''FOR'', tok ''${i}''] TestCaseContext"
    by (simp add: sample_env_def first_value_def tok_def)
  have run: "dispatch_nested sample_env TestCaseContext ForLexer [tok ''FOR'', tok ''${i}'']
        [[tok ''FOR'', tok ''${j}''], [tok ''Log''], [tok ''END''], [tok ''END''], [tok ''Log'']]
     = Inr (BNested ForLexer
              [BStmt (StatementLexer ForHeaderLexer [[tok ''FOR'', tok ''${i}'']]),
               BStmt (StatementLexer ForHeaderLexer [[tok ''FOR'', tok ''${j}'']]),
               BStmt (StatementLexer KeywordCallLexer [[tok ''Log'']]),
               BStmt (StatementLexer EndLexer [[tok ''END'']]),
               BStmt (StatementLexer EndLexer [[tok ''END'']])] 0)"
    by (simp add: dispatch_nested_def sample_eval)
  from NestedBlockLexer_block_level [of ForLexer sample_env "[]" 0 TestCaseContext "[tok ''FOR'', tok ''${i}'']" _
      "[tok ''FOR'', tok ''${i}'']"
      "[[tok ''FOR'', tok ''${j}''], [tok ''Log''], [tok ''END''], [tok ''END''], [tok ''Log'']]"]
    h run
  show ?thesis by simp
qed

text \<open>
  Claim C10. \<^verbatim>\<open>InlineIfLexer.input\<close> returns the inline-conditional lexer itself, which is
  neither a block-opening header lexer nor an end lexer; its \<^verbatim>\<open>accepts_more\<close> is false for
  every statement; and when the child of a nested block lexer that took a statement is
  an inline-conditional lexer, the block level of the nested block lexer is unchanged.
\<close>

theorem InlineIfLexer_keeps_block_level:
  "(InlineIfLexer_input E c inline statement = Inr (inline', self) \<longrightarrow>
      self = BInlineIf inline' \<and> \<not> is_block_header self \<and> \<not> is_end self)
   \<and> (\<forall>s. \<not> body_accepts_more E (BInlineIf inline) s)
   \<and> (body_input E c (BNested k lexers level) statement = Inr (BNested k lexers' level')
        \<and> last lexers' = BInlineIf inline \<longrightarrow> level' = level)"
proof -
  have self: "self = BInlineIf inline' \<and> \<not> is_block_header self \<and> \<not> is_end self"
    if "InlineIfLexer_input E c inline statement = Inr (inline', self)"
    using InlineIfLexer_input_self [OF that] by simp
  have closed: "\<forall>s. \<not> body_accepts_more E (BInlineIf inline) s"
    by (simp add: InlineIfLexer_accepts_more_def)
  have level: "level' = level"
    if "body_input E c (BNested k lexers level) statement = Inr (BNested k lexers' level')
        \<and> last lexers' = BInlineIf inline"
  proof -
    from that nested_input_step [of E c k lexers level statement "BNested k lexers' level'"]
    have "level' = update_block_level (BInlineIf inline) level" by auto
    then show ?thesis by (simp add: update_block_level_def)
  qed
  from self closed level show ?thesis by blast
qed

text \<open>An inline \<^verbatim>\<open>IF\<close> inside an open \<^verbatim>\<open>FOR\<close> loop: the block level stays 1.\<close>

theorem InlineIfLexer_keeps_block_level_witness:
  "body_input sample_env TestCaseContext
      (BNested ForLexer [BStmt (StatementLexer ForHeaderLexer [[tok ''FOR'', tok ''${i}'']])] 1)
      [tok ''IF'', tok ''$x'', tok ''Log'']
     = Inr (BNested ForLexer
              [BStmt (StatementLexer ForHeaderLexer [[tok ''FOR'', tok ''${i}'']]),
               BInlineIf
                 [StatementLexer InlineIfHeaderLexer [[tok ''IF'', (tok ''$x'')\<lparr>add_eos_after := True\<rparr>]],
                  StatementLexer KeywordCallLexer [[tok ''Log'']]]] 1)"
proof -
  have run: "body_input sample_env TestCaseContext
      (BNested ForLexer [BStmt (StatementLexer ForHeaderLexer [[tok ''FOR'', tok ''${i}'']])] 1)
      [tok ''IF'', tok ''$x'', tok ''Log'']
     = Inr (BNested ForLexer
              [BStmt (StatementLexer ForHeaderLexer [[tok ''FOR'', tok ''${i}'']]),
               BInlineIf
                 [StatementLexer InlineIfHeaderLexer [[tok ''IF'', (tok ''$x'')\<lparr>add_eos_after := True\<rparr>]],
                  StatementLexer KeywordCallLexer [[tok ''Log'']]]] 1)"
    by (simp add: InlineIfLexer_input_def InlineIfLexer_split_def inline_child_input_def
        InlineIfLexer_lexer_classes_def sample_eval)
  from InlineIfLexer_keeps_block_level
    [where E = sample_env and c = TestCaseContext and k = ForLexer
       and lexers = "[BStmt (StatementLexer ForHeaderLexer [[tok ''FOR'', tok ''${i}'']])]"
       and level = 1 and statement = "[tok ''IF'', tok ''$x'', tok ''Log'']"
       and lexers' = "[BStmt (StatementLexer ForHeaderLexer [[tok ''FOR'', tok ''${i}'']]),
               BInlineIf
                 [StatementLexer InlineIfHeaderLexer [[tok ''IF'', (tok ''$x'')\<lparr>add_eos_after := True\<rparr>]],
                  StatementLexer KeywordCallLexer [[tok ''Log'']]]]"
       and level' = 1
       and inline = "[StatementLexer InlineIfHeaderLexer [[tok ''IF'', (tok ''$x'')\<lparr>add_eos_after := True\<rparr>]],
                  StatementLexer KeywordCallLexer [[tok ''Log'']]]"]
    run
  show ?thesis by simp
qed

end
